theory Spec2Isabelle
  imports Main "HOL-Library.Word" "HOL-Library.While_Combinator" "HOL-Library.Product_Lexorder"
begin

section \<open>The rules engine of go-stop-go (package rules)\<close>

text \<open>
  The package evaluates a Go board after a stone has been placed: it partitions the
  stones into strings (connected groups of one colour), counts the liberties of every
  string and decides which strings are captured, rejecting a suicidal move.

  Go's \<open>int\<close> is a 64-bit two's complement integer on the platforms the server runs
  on: coordinates and the board size are \<open>64 word\<close>, \<open>+\<close> and \<open>-\<close> wrap around and the
  comparisons of the source are the signed ones (\<open><s\<close>, \<open>\<le>s\<close>).
\<close>

subsection \<open>Data model\<close>

type_synonym goint = "64 word"

text \<open>
  Modelled from the spec: the declarations of \<open>models.Stone\<close> and \<open>models.Board\<close> are
  not part of the sources at hand. A stone is a coordinate pair and a colour, the
  colour being a string that is empty for an empty point; a board is a size and the
  slice of its stones. The field of the board that records the last capture is never
  read by the package and is left out.
\<close>

record Stone =
  X :: goint
  Y :: goint
  Color :: string

record Board =
  Size :: goint
  Stones :: "Stone list"

text \<open>\<open>type String []models.Stone\<close>\<close>

type_synonym String = "Stone list"

text \<open>\<open>type selfCaptureError struct{}\<close>, the only error of the package.\<close>

datatype error = selfCaptureError

subsection \<open>Helpers: bounds, lookup and membership\<close>

definition isInbounds :: "goint \<Rightarrow> Stone \<Rightarrow> bool" where
  "isInbounds size' stone =
     (if X stone <s 0 \<or> size' \<le>s X stone then False
      else if Y stone <s 0 \<or> size' \<le>s Y stone then False
      else True)"

text \<open>
  \<open>find\<close> returns a pointer to a copy of the first stone of the slice that has the
  coordinates asked for, or nil.
\<close>

fun find_stone :: "Stone list \<Rightarrow> Stone \<Rightarrow> Stone option" where
  "find_stone [] stone = None"
| "find_stone (s # stones) stone =
     (if X s = X stone \<and> Y s = Y stone then Some s else find_stone stones stone)"

text \<open>\<open>reflect.DeepEqual\<close> on two stones, or on two strings, is structural equality.\<close>

fun contains :: "Stone list \<Rightarrow> Stone \<Rightarrow> bool" where
  "contains [] item = False"
| "contains (v # list) item = (if v = item then True else contains list item)"

fun containsString :: "String list \<Rightarrow> String \<Rightarrow> bool" where
  "containsString [] str = False"
| "containsString (s # strings) str = (if s = str then True else containsString strings str)"

subsection \<open>Neighbor Resolver\<close>

text \<open>
  The loop of \<open>getNearby\<close> over the four candidate points, with \<open>validStones\<close> as the
  accumulator.
\<close>

fun getNearby_loop :: "Board \<Rightarrow> Stone list \<Rightarrow> Stone list \<Rightarrow> Stone list" where
  "getNearby_loop board [] validStones = validStones"
| "getNearby_loop board (s # nearbyStones) validStones =
     (if isInbounds (Size board) s then
        (case find_stone (Stones board) s of
           Some existingStone \<Rightarrow> getNearby_loop board nearbyStones (validStones @ [existingStone])
         | None \<Rightarrow> getNearby_loop board nearbyStones (validStones @ [s]))
      else getNearby_loop board nearbyStones validStones)"

definition getNearby :: "Board \<Rightarrow> Stone \<Rightarrow> Stone list" where
  "getNearby board stone =
     (let up = \<lparr>X = X stone, Y = Y stone + 1, Color = ''''\<rparr>;
          down = \<lparr>X = X stone, Y = Y stone - 1, Color = ''''\<rparr>;
          left = \<lparr>X = X stone - 1, Y = Y stone, Color = ''''\<rparr>;
          right = \<lparr>X = X stone + 1, Y = Y stone, Color = ''''\<rparr>;
          nearbyStones = [up, down, left, right]
      in getNearby_loop board nearbyStones [])"

subsection \<open>Group Detector\<close>

text \<open>
  One round of the work-list loop of \<open>getString\<close>: pop the last element of \<open>acc\<close>; when it
  is not yet in \<open>str\<close> and has the colour of the seed, append it to \<open>str\<close> and push its
  neighbours.
\<close>

definition getString_body :: "Board \<Rightarrow> Stone \<Rightarrow> Stone list \<times> String \<Rightarrow> Stone list \<times> String" where
  "getString_body board stone st =
     (case st of (acc, str) \<Rightarrow>
        (let s = last acc; acc' = butlast acc in
         if \<not> contains str s \<and> Color s = Color stone
         then (acc' @ getNearby board s, str @ [s])
         else (acc', str)))"

text \<open>Membership by \<open>contains\<close> is membership in the list.\<close>

lemma contains_iff: "contains list item \<longleftrightarrow> item \<in> set list"
  by (induction list) auto

lemma containsString_iff: "containsString strings str \<longleftrightarrow> str \<in> set strings"
  by (induction strings) auto

text \<open>
  The stone the board shows at the coordinates of \<open>n\<close>: the first stone listed there,
  or \<open>n\<close> itself when there is none.
\<close>

definition resolve :: "Board \<Rightarrow> Stone \<Rightarrow> Stone" where
  "resolve board n = (case find_stone (Stones board) n of Some e \<Rightarrow> e | None \<Rightarrow> n)"

lemma getNearby_loop_eq:
  "getNearby_loop board ns vs = vs @ map (resolve board) (filter (isInbounds (Size board)) ns)"
  by (induction ns arbitrary: vs) (auto simp: resolve_def split: option.splits)

lemma find_stone_Some:
  "find_stone stones n = Some e \<Longrightarrow> e \<in> set stones \<and> X e = X n \<and> Y e = Y n"
  by (induction stones) (auto split: if_splits)

lemma find_stone_None:
  "find_stone stones n = None \<longleftrightarrow> (\<forall>e\<in>set stones. \<not> (X e = X n \<and> Y e = Y n))"
  by (induction stones) auto

lemma resolve_cases:
  "resolve board n \<in> set (Stones board) \<or> resolve board n = n"
  by (auto simp: resolve_def dest: find_stone_Some split: option.splits)

lemma getNearby_subset:
  "set (getNearby board s) \<subseteq> set (Stones board) \<union> {n. Color n = ''''}"
proof -
  have "resolve board n \<in> set (Stones board) \<union> {n. Color n = ''''}" if "Color n = ''''" for n
    using resolve_cases [of board n] that by auto
  then show ?thesis
    by (auto simp: getNearby_def getNearby_loop_eq Let_def)
qed

lemma finite_empty_stones: "finite {n :: Stone. Color n = ''''}"
proof -
  have "{n :: Stone. Color n = ''''} \<subseteq> (\<lambda>(x, y). \<lparr>X = x, Y = y, Color = ''''\<rparr>) ` UNIV"
  proof
    fix n :: Stone
    assume "n \<in> {n. Color n = ''''}"
    then have "n = (\<lambda>(x, y). \<lparr>X = x, Y = y, Color = ''''\<rparr>) (X n, Y n)"
      by simp
    then show "n \<in> (\<lambda>(x, y). \<lparr>X = x, Y = y, Color = ''''\<rparr>) ` UNIV"
      by blast
  qed
  then show ?thesis
    by (rule finite_subset) simp
qed

text \<open>
  The loop \<open>for len(acc) > 0\<close>. It terminates: a round either appends to \<open>str\<close> a stone
  that was not in it, out of a finite pool (the stones of the board, the empty points
  and what the work list holds), or leaves \<open>str\<close> alone and shortens the work list.
\<close>

function getString_loop :: "Board \<Rightarrow> Stone \<Rightarrow> Stone list \<times> String \<Rightarrow> String" where
  "getString_loop board stone (acc, str) =
     (if length acc > 0
      then getString_loop board stone (getString_body board stone (acc, str))
      else str)"
  by pat_completeness auto
termination
proof (relation "measures
    [\<lambda>(board, stone, acc, str).
        card ((set (Stones board) \<union> {n. Color n = ''''} \<union> set acc) - set str),
     \<lambda>(board, stone, acc, str). length acc]")
  show "wf (measures
    [\<lambda>(board, stone, acc, str).
        card ((set (Stones board) \<union> {n. Color n = ''''} \<union> set acc) - set str),
     \<lambda>(board, stone, acc, str). length acc])"
    by simp
next
  fix board :: Board and stone :: Stone and acc :: "Stone list" and str :: String
  assume nonempty: "0 < length acc"
  define pool where "pool = set (Stones board) \<union> {n. Color n = ''''}"
  have fin: "finite (pool \<union> set acc)"
    by (simp add: pool_def finite_empty_stones)
  have last_in: "last acc \<in> set acc"
    using nonempty by simp
  have butlast_sub: "set (butlast acc) \<subseteq> set acc"
    by (meson in_set_butlastD subsetI)
  show "((board, stone, getString_body board stone (acc, str)), (board, stone, acc, str))
      \<in> measures
    [\<lambda>(board, stone, acc, str).
        card ((set (Stones board) \<union> {n. Color n = ''''} \<union> set acc) - set str),
     \<lambda>(board, stone, acc, str). length acc]"
  proof (cases "\<not> contains str (last acc) \<and> Color (last acc) = Color stone")
    case True
    then have fresh: "last acc \<notin> set str"
      by (simp add: contains_iff)
    have "(pool \<union> set (butlast acc @ getNearby board (last acc))) - set (str @ [last acc])
        \<subset> (pool \<union> set acc) - set str"
      using getNearby_subset [of board "last acc"] butlast_sub last_in fresh
      by (auto simp: pool_def)
    then have "card ((pool \<union> set (butlast acc @ getNearby board (last acc))) - set (str @ [last acc]))
        < card ((pool \<union> set acc) - set str)"
      using fin by (intro psubset_card_mono) auto
    with True show ?thesis
      by (simp add: getString_body_def Let_def pool_def)
  next
    case False
    have "(pool \<union> set (butlast acc)) - set str \<subseteq> (pool \<union> set acc) - set str"
      using butlast_sub by auto
    then have "card ((pool \<union> set (butlast acc)) - set str) \<le> card ((pool \<union> set acc) - set str)"
      using fin by (intro card_mono) auto
    moreover have "length (butlast acc) < length acc"
      using nonempty by simp
    ultimately show ?thesis
      using False by (auto simp: getString_body_def Let_def pool_def)
  qed
qed

definition getString :: "Board \<Rightarrow> Stone \<Rightarrow> String" where
  "getString board stone = getString_loop board stone ([stone], [])"

subsection \<open>The Group Detector as the spec words it\<close>

text \<open>
  The spec describes the visited test of the traversal as one by coordinates alone.
  This second loop is the source's loop with that test in the place of \<open>contains\<close>; it
  is compared with \<open>getString\<close> below.
\<close>

fun contains_coordinate :: "Stone list \<Rightarrow> Stone \<Rightarrow> bool" where
  "contains_coordinate [] item = False"
| "contains_coordinate (v # list) item =
     (if X v = X item \<and> Y v = Y item then True else contains_coordinate list item)"

definition getString_body_spec :: "Board \<Rightarrow> Stone \<Rightarrow> Stone list \<times> String \<Rightarrow> Stone list \<times> String" where
  "getString_body_spec board stone st =
     (case st of (acc, str) \<Rightarrow>
        (let s = last acc; acc' = butlast acc in
         if \<not> contains_coordinate str s \<and> Color s = Color stone
         then (acc' @ getNearby board s, str @ [s])
         else (acc', str)))"

lemma contains_coordinate_iff:
  "contains_coordinate list item \<longleftrightarrow> (X item, Y item) \<in> (\<lambda>v. (X v, Y v)) ` set list"
  by (induction list) auto

function getString_loop_spec :: "Board \<Rightarrow> Stone \<Rightarrow> Stone list \<times> String \<Rightarrow> String" where
  "getString_loop_spec board stone (acc, str) =
     (if length acc > 0
      then getString_loop_spec board stone (getString_body_spec board stone (acc, str))
      else str)"
  by pat_completeness auto
termination
proof (relation "measures
    [\<lambda>(board, stone, acc, str). card (UNIV - (\<lambda>v. (X v, Y v)) ` set str),
     \<lambda>(board, stone, acc, str). length acc]")
  show "wf (measures
    [\<lambda>(board :: Board, stone :: Stone, acc :: Stone list, str :: String).
        card (UNIV - (\<lambda>v. (X v, Y v)) ` set str),
     \<lambda>(board, stone, acc, str). length acc])"
    by simp
next
  fix board :: Board and stone :: Stone and acc :: "Stone list" and str :: String
  assume nonempty: "0 < length acc"
  show "((board, stone, getString_body_spec board stone (acc, str)), (board, stone, acc, str))
      \<in> measures
    [\<lambda>(board, stone, acc, str). card (UNIV - (\<lambda>v. (X v, Y v)) ` set str),
     \<lambda>(board, stone, acc, str). length acc]"
  proof (cases "\<not> contains_coordinate str (last acc) \<and> Color (last acc) = Color stone")
    case True
    then have fresh: "(X (last acc), Y (last acc)) \<notin> (\<lambda>v. (X v, Y v)) ` set str"
      by (simp add: contains_coordinate_iff)
    have "UNIV - (\<lambda>v. (X v, Y v)) ` set (str @ [last acc])
        \<subset> UNIV - (\<lambda>v. (X v, Y v)) ` set str"
      using fresh by auto
    then have "card (UNIV - (\<lambda>v. (X v, Y v)) ` set (str @ [last acc]))
        < card (UNIV - (\<lambda>v. (X v, Y v)) ` set str)"
      by (intro psubset_card_mono) auto
    with True show ?thesis
      by (simp add: getString_body_spec_def Let_def)
  next
    case False
    moreover have "length (butlast acc) < length acc"
      using nonempty by simp
    ultimately show ?thesis
      by (auto simp: getString_body_spec_def Let_def)
  qed
qed

definition getString_spec :: "Board \<Rightarrow> Stone \<Rightarrow> String" where
  "getString_spec board stone = getString_loop_spec board stone ([stone], [])"

subsection \<open>Board Partitioner\<close>

text \<open>
  The comparison closure handed to \<open>sort.Slice\<close>: by \<open>Y\<close>, then by \<open>X\<close>.
\<close>

definition less_stone :: "Stone \<Rightarrow> Stone \<Rightarrow> bool" where
  "less_stone a b =
     (if Y a <s Y b then True
      else if Y b <s Y a then False
      else X a <s X b)"

text \<open>
  \<open>sort.Slice\<close> sorts in place by the closure and promises no stability. The model is
  an insertion sort. A string built by \<open>getString\<close> holds no two stones with the same
  coordinates, so on the slices the package sorts the sorted order is unique and the
  choice of algorithm is not observable.
\<close>

fun insert_stone :: "Stone \<Rightarrow> Stone list \<Rightarrow> Stone list" where
  "insert_stone s [] = [s]"
| "insert_stone s (t # ts) = (if less_stone s t then s # t # ts else t # insert_stone s ts)"

fun sort_Slice :: "Stone list \<Rightarrow> Stone list" where
  "sort_Slice [] = []"
| "sort_Slice (s # ss) = insert_stone s (sort_Slice ss)"

text \<open>The loop of \<open>getStrings\<close> over \<open>board.Stones\<close>, with \<open>strings\<close> as the accumulator.\<close>

fun getStrings_loop :: "Board \<Rightarrow> Stone list \<Rightarrow> String list \<Rightarrow> String list" where
  "getStrings_loop board [] strings = strings"
| "getStrings_loop board (stone # stones) strings =
     (let newString = sort_Slice (getString board stone) in
      if \<not> containsString strings newString
      then getStrings_loop board stones (strings @ [newString])
      else getStrings_loop board stones strings)"

definition getStrings :: "Board \<Rightarrow> String list" where
  "getStrings board = getStrings_loop board (Stones board) []"

subsection \<open>Liberty Counter\<close>

text \<open>The inner loop of \<open>findLiberties\<close>, over the neighbours of one stone.\<close>

fun findLiberties_nearby :: "Stone list \<Rightarrow> Stone list \<Rightarrow> Stone list" where
  "findLiberties_nearby [] liberties = liberties"
| "findLiberties_nearby (ns # nearby) liberties =
     (if Color ns = '''' \<and> \<not> contains liberties ns
      then findLiberties_nearby nearby (liberties @ [ns])
      else findLiberties_nearby nearby liberties)"

text \<open>The outer loop, over the stones of the string.\<close>

fun findLiberties_loop :: "Board \<Rightarrow> Stone list \<Rightarrow> Stone list \<Rightarrow> Stone list" where
  "findLiberties_loop board [] liberties = liberties"
| "findLiberties_loop board (s # str) liberties =
     findLiberties_loop board str (findLiberties_nearby (getNearby board s) liberties)"

definition findLiberties :: "Board \<Rightarrow> String \<Rightarrow> Stone list \<times> nat" where
  "findLiberties board str =
     (let liberties = findLiberties_loop board str [] in (liberties, length liberties))"

subsection \<open>Capture Resolver\<close>

text \<open>The first loop of \<open>Run\<close>: the strings without a liberty.\<close>

fun Run_collect :: "Board \<Rightarrow> String list \<Rightarrow> String list \<Rightarrow> String list" where
  "Run_collect board [] toRemove = toRemove"
| "Run_collect board (str # strings) toRemove =
     (let numLiberties = snd (findLiberties board str) in
      if numLiberties = 0
      then Run_collect board strings (toRemove @ [str])
      else Run_collect board strings toRemove)"

text \<open>The second loop of \<open>Run\<close>: drop the strings that hold the stone played.\<close>

fun Run_filter :: "Stone \<Rightarrow> String list \<Rightarrow> String list \<Rightarrow> String list" where
  "Run_filter stone [] updatedRemove = updatedRemove"
| "Run_filter stone (str # toRemove) updatedRemove =
     (if \<not> contains str stone
      then Run_filter stone toRemove (updatedRemove @ [str])
      else Run_filter stone toRemove updatedRemove)"

text \<open>
  \<open>Run\<close> returns a pair, the strings to remove and the error; \<open>None\<close> is the nil error.
\<close>

definition Run :: "Board \<Rightarrow> Stone \<Rightarrow> String list \<times> error option" where
  "Run board stone =
     (let strings = getStrings board;
          toRemove = Run_collect board strings []
      in if length toRemove = 1 \<and> contains (toRemove ! 0) stone
         then ([], Some selfCaptureError)
         else if length toRemove > 1
         then (Run_filter stone toRemove [], None)
         else (toRemove, None))"

section \<open>Vocabulary of the statements\<close>

subsection \<open>Points, chains and liberties\<close>

text \<open>
  Two points are adjacent when they differ by one step up, down, left or right. The
  coordinates are compared as the integers they stand for, so adjacency never wraps
  around.
\<close>

definition adjacent :: "Stone \<Rightarrow> Stone \<Rightarrow> bool" where
  "adjacent a b \<longleftrightarrow>
     (sint (X b) = sint (X a) \<and> (sint (Y b) = sint (Y a) + 1 \<or> sint (Y b) = sint (Y a) - 1)) \<or>
     (sint (Y b) = sint (Y a) \<and> (sint (X b) = sint (X a) + 1 \<or> sint (X b) = sint (X a) - 1))"

text \<open>
  \<open>board_shows board n\<close>: \<open>n\<close> is what the board holds at the coordinates of \<open>n\<close>, that
  is the first stone listed there, or the empty stone when none is listed.
\<close>

definition board_shows :: "Board \<Rightarrow> Stone \<Rightarrow> bool" where
  "board_shows board n =
     (case find_stone (Stones board) n of Some e \<Rightarrow> n = e | None \<Rightarrow> Color n = '''')"

text \<open>
  \<open>connected board seed n\<close>: there is a chain from the seed to \<open>n\<close> in which every step
  goes to an adjacent point within the bounds of the board, and the stone the board
  shows there has the colour of the seed.
\<close>

inductive connected :: "Board \<Rightarrow> Stone \<Rightarrow> Stone \<Rightarrow> bool" for board seed where
  seed: "connected board seed seed"
| step: "connected board seed s \<Longrightarrow> adjacent s n \<Longrightarrow> isInbounds (Size board) n \<Longrightarrow>
         board_shows board n \<Longrightarrow> Color n = Color seed \<Longrightarrow> connected board seed n"

text \<open>
  A liberty of a string on a board: an empty point within the bounds, adjacent to a
  stone of the string. The point is empty when the board lists no stone there, or when
  the first stone it lists there has the empty colour.
\<close>

definition liberty :: "Board \<Rightarrow> String \<Rightarrow> Stone \<Rightarrow> bool" where
  "liberty board str n \<longleftrightarrow>
     Color n = '''' \<and> isInbounds (Size board) n \<and> board_shows board n \<and>
     (\<exists>s\<in>set str. adjacent s n)"

text \<open>The strings of the board that have no liberty.\<close>

definition captured :: "Board \<Rightarrow> String set" where
  "captured board = set (filter (\<lambda>g. snd (findLiberties board g) = 0) (getStrings board))"

text \<open>The sort key of the comparison closure: \<open>Y\<close> first, then \<open>X\<close>, both signed.\<close>

definition sort_key_stone :: "Stone \<Rightarrow> int \<times> int" where
  "sort_key_stone s = (sint (Y s), sint (X s))"

text \<open>
  The invariant of the loop of \<open>getString\<close> used below: every neighbour of a collected
  stone that has the colour of the seed is either collected or still on the work list.
\<close>

definition frontier_closed :: "Board \<Rightarrow> Stone \<Rightarrow> Stone list \<Rightarrow> String \<Rightarrow> bool" where
  "frontier_closed board seed acc str \<longleftrightarrow>
     (\<forall>m\<in>set str. \<forall>n\<in>set (getNearby board m).
        Color n = Color seed \<longrightarrow> n \<in> set str \<or> n \<in> set acc)"

subsection \<open>Example positions\<close>

definition Black :: "goint \<Rightarrow> goint \<Rightarrow> Stone" where
  "Black x y = \<lparr>X = x, Y = y, Color = ''black''\<rparr>"

definition White :: "goint \<Rightarrow> goint \<Rightarrow> Stone" where
  "White x y = \<lparr>X = x, Y = y, Color = ''white''\<rparr>"

definition Empty :: "goint \<Rightarrow> goint \<Rightarrow> Stone" where
  "Empty x y = \<lparr>X = x, Y = y, Color = ''''\<rparr>"

text \<open>
  A 5 by 5 board: a black group of three stones bent around a white stone, and a
  lone black stone in the far corner.
\<close>

definition bent_board :: Board where
  "bent_board = \<lparr>Size = 5, Stones = [Black 1 1, White 2 1, Black 1 2, Black 2 2, Black 4 4]\<rparr>"

text \<open>A white stone in the corner, shut in by two black stones.\<close>

definition corner_board :: Board where
  "corner_board = \<lparr>Size = 5, Stones = [Black 0 1, Black 1 0, White 0 0]\<rparr>"

text \<open>
  Black plays in the corner at (0, 0), where the black stone has no liberty, and takes
  the last liberty of the white stones at (0, 1) and (1, 0).
\<close>

definition capture_board :: Board where
  "capture_board = \<lparr>Size = 5,
     Stones = [White 0 1, White 1 0, Black 0 2, Black 1 1, Black 2 0, Black 0 0]\<rparr>"

text \<open>
  A white stone at (3, 3) with its last liberty at (3, 4), where black plays.
\<close>

definition atari_board :: Board where
  "atari_board = \<lparr>Size = 5,
     Stones = [White 3 3, Black 3 2, Black 2 3, Black 4 3, Black 3 4]\<rparr>"

text \<open>A board of size 5 with a stone at (5, 0), one step out of bounds.\<close>

definition outside_board :: Board where
  "outside_board = \<lparr>Size = 5, Stones = [Black 5 0, Black 4 0]\<rparr>"

section \<open>Properties\<close>

subsection \<open>Signed 64-bit arithmetic at the edges\<close>

lemma sint_bounds64:
  "- 9223372036854775808 \<le> sint w \<and> sint w < 9223372036854775808" for w :: goint
  using sint_ge [of w] sint_lt [of w] by simp

lemma word_of_sint: "word_of_int (sint w) = w" for w :: goint
  by simp

lemma sint_plus1: "sint (w + 1) = sint w + 1" if nonneg: "0 \<le> sint (w + 1)" for w :: goint
proof (cases "sint w = 9223372036854775807")
  case True
  then have "w = word_of_int 9223372036854775807"
    using word_of_sint [of w] by simp
  then have "sint (w + 1) = - 9223372036854775808"
    by simp
  with nonneg show ?thesis by simp
next
  case False
  then have "sint w + 1 < 9223372036854775808" "- 9223372036854775808 \<le> sint w + 1"
    using sint_bounds64 [of w] by simp_all
  then have "signed_take_bit 63 (sint w + 1) = sint w + 1"
    by (simp add: signed_take_bit_int_eq_self)
  then show ?thesis
    by (simp add: sint_word_ariths)
qed

lemma sint_minus1: "sint (w - 1) = sint w - 1" if below: "sint (w - 1) < sint z" for w z :: goint
proof (cases "sint w = - 9223372036854775808")
  case True
  then have "w = word_of_int (- 9223372036854775808)"
    using word_of_sint [of w] by simp
  then have "sint (w - 1) = 9223372036854775807"
    by simp
  with below sint_bounds64 [of z] show ?thesis by simp
next
  case False
  then have "sint w - 1 < 9223372036854775808" "- 9223372036854775808 \<le> sint w - 1"
    using sint_bounds64 [of w] by simp_all
  then have "signed_take_bit 63 (sint w - 1) = sint w - 1"
    by (simp add: signed_take_bit_int_eq_self)
  then show ?thesis
    by (simp add: sint_word_ariths)
qed

lemma of_sint_plus1: "n = w + 1" if "sint n = sint w + 1" for w n :: goint
proof -
  from that have "word_of_int (sint n) = (word_of_int (sint w) + 1 :: goint)"
    by simp
  then show ?thesis
    by (simp only: word_of_sint)
qed

lemma of_sint_minus1: "n = w - 1" if "sint n = sint w - 1" for w n :: goint
proof -
  from that have "word_of_int (sint n) = (word_of_int (sint w) - 1 :: goint)"
    by simp
  then show ?thesis
    by (simp only: word_of_sint)
qed

lemma sint_eq_iff: "sint a = sint b \<longleftrightarrow> a = b" for a b :: goint
  using word_eq_iff_signed [of a b] by auto

lemma isInbounds_iff:
  "isInbounds sz n \<longleftrightarrow>
     0 \<le> sint (X n) \<and> sint (X n) < sint sz \<and> 0 \<le> sint (Y n) \<and> sint (Y n) < sint sz"
  by (auto simp: isInbounds_def word_sless_alt word_sle_eq)

subsection \<open>What the Neighbor Resolver returns\<close>

text \<open>\<open>find\<close> returns the first stone of the slice at the coordinates asked for.\<close>

lemma find_stone_first:
  "find_stone stones n = Some e \<longleftrightarrow>
     (\<exists>pre post. stones = pre @ e # post \<and> X e = X n \<and> Y e = Y n \<and>
        (\<forall>p\<in>set pre. \<not> (X p = X n \<and> Y p = Y n)))"
proof (induction stones)
  case Nil
  then show ?case by simp
next
  case (Cons s stones)
  show ?case
  proof (cases "X s = X n \<and> Y s = Y n")
    case True
    have "(\<exists>pre post. s # stones = pre @ e # post \<and> X e = X n \<and> Y e = Y n \<and>
        (\<forall>p\<in>set pre. \<not> (X p = X n \<and> Y p = Y n))) \<longleftrightarrow> s = e"
    proof
      assume "\<exists>pre post. s # stones = pre @ e # post \<and> X e = X n \<and> Y e = Y n \<and>
        (\<forall>p\<in>set pre. \<not> (X p = X n \<and> Y p = Y n))"
      then obtain pre post where eq: "s # stones = pre @ e # post"
        and first: "\<forall>p\<in>set pre. \<not> (X p = X n \<and> Y p = Y n)"
        by blast
      show "s = e"
      proof (cases pre)
        case Nil
        with eq show ?thesis by simp
      next
        case (Cons p ps)
        with eq have "p = s" by simp
        with Cons first True show ?thesis by simp
      qed
    next
      assume "s = e"
      with True have "s # stones = [] @ e # stones \<and> X e = X n \<and> Y e = Y n \<and>
        (\<forall>p\<in>set []. \<not> (X p = X n \<and> Y p = Y n))"
        by simp
      then show "\<exists>pre post. s # stones = pre @ e # post \<and> X e = X n \<and> Y e = Y n \<and>
        (\<forall>p\<in>set pre. \<not> (X p = X n \<and> Y p = Y n))"
        by blast
    qed
    with True show ?thesis by simp
  next
    case False
    have "(\<exists>pre post. s # stones = pre @ e # post \<and> X e = X n \<and> Y e = Y n \<and>
        (\<forall>p\<in>set pre. \<not> (X p = X n \<and> Y p = Y n)))
      \<longleftrightarrow> (\<exists>pre post. stones = pre @ e # post \<and> X e = X n \<and> Y e = Y n \<and>
        (\<forall>p\<in>set pre. \<not> (X p = X n \<and> Y p = Y n)))"
    proof
      assume "\<exists>pre post. s # stones = pre @ e # post \<and> X e = X n \<and> Y e = Y n \<and>
        (\<forall>p\<in>set pre. \<not> (X p = X n \<and> Y p = Y n))"
      then obtain pre post where eq: "s # stones = pre @ e # post"
        and e: "X e = X n \<and> Y e = Y n"
        and first: "\<forall>p\<in>set pre. \<not> (X p = X n \<and> Y p = Y n)"
        by blast
      from eq e False obtain ps where pre: "pre = s # ps"
        by (cases pre) auto
      with eq first have "stones = ps @ e # post" "\<forall>p\<in>set ps. \<not> (X p = X n \<and> Y p = Y n)"
        by simp_all
      with e show "\<exists>pre post. stones = pre @ e # post \<and> X e = X n \<and> Y e = Y n \<and>
        (\<forall>p\<in>set pre. \<not> (X p = X n \<and> Y p = Y n))"
        by blast
    next
      assume "\<exists>pre post. stones = pre @ e # post \<and> X e = X n \<and> Y e = Y n \<and>
        (\<forall>p\<in>set pre. \<not> (X p = X n \<and> Y p = Y n))"
      then obtain pre post where eq: "stones = pre @ e # post"
        and e: "X e = X n \<and> Y e = Y n"
        and first: "\<forall>p\<in>set pre. \<not> (X p = X n \<and> Y p = Y n)"
        by blast
      then have "s # stones = (s # pre) @ e # post"
        "\<forall>p\<in>set (s # pre). \<not> (X p = X n \<and> Y p = Y n)"
        using False by simp_all
      with e show "\<exists>pre post. s # stones = pre @ e # post \<and> X e = X n \<and> Y e = Y n \<and>
        (\<forall>p\<in>set pre. \<not> (X p = X n \<and> Y p = Y n))"
        by blast
    qed
    moreover have "find_stone (s # stones) n = find_stone stones n"
      using False by auto
    ultimately show ?thesis
      using Cons.IH by (simp only:)
  qed
qed

lemma find_stone_coords:
  "X a = X b \<Longrightarrow> Y a = Y b \<Longrightarrow> find_stone stones a = find_stone stones b"
  by (induction stones) auto

lemma resolve_coords: "X (resolve board c) = X c \<and> Y (resolve board c) = Y c"
  by (auto simp: resolve_def dest: find_stone_Some split: option.splits)

lemma board_shows_resolve: "Color c = '''' \<Longrightarrow> board_shows board (resolve board c)"
proof -
  assume empty: "Color c = ''''"
  have "find_stone (Stones board) (resolve board c) = find_stone (Stones board) c"
    using resolve_coords [of board c] by (intro find_stone_coords) simp_all
  with empty show ?thesis
    by (auto simp: board_shows_def resolve_def split: option.splits)
qed

lemma resolve_shown:
  "board_shows board n \<Longrightarrow> resolve board \<lparr>X = X n, Y = Y n, Color = ''''\<rparr> = n"
proof -
  assume shown: "board_shows board n"
  have "find_stone (Stones board) \<lparr>X = X n, Y = Y n, Color = ''''\<rparr> = find_stone (Stones board) n"
    by (intro find_stone_coords) simp_all
  with shown show ?thesis
    by (auto simp: board_shows_def resolve_def split: option.splits)
qed

lemma set_getNearby:
  "set (getNearby board s) = resolve board `
     {c \<in> {\<lparr>X = X s, Y = Y s + 1, Color = ''''\<rparr>, \<lparr>X = X s, Y = Y s - 1, Color = ''''\<rparr>,
           \<lparr>X = X s - 1, Y = Y s, Color = ''''\<rparr>, \<lparr>X = X s + 1, Y = Y s, Color = ''''\<rparr>}.
        isInbounds (Size board) c}"
  by (auto simp: getNearby_def getNearby_loop_eq Let_def)

lemma getNearby_iff:
  "n \<in> set (getNearby board s) \<longleftrightarrow>
     isInbounds (Size board) n \<and> adjacent s n \<and> board_shows board n"
proof
  assume "n \<in> set (getNearby board s)"
  then obtain c where n: "n = resolve board c" and inb: "isInbounds (Size board) c"
    and empty: "Color c = ''''"
    and c: "X c = X s \<and> Y c = Y s + 1 \<or> X c = X s \<and> Y c = Y s - 1
          \<or> X c = X s - 1 \<and> Y c = Y s \<or> X c = X s + 1 \<and> Y c = Y s"
    unfolding set_getNearby by auto
  have coords: "X n = X c" "Y n = Y c"
    using resolve_coords [of board c] n by simp_all
  have "adjacent s c"
    using c inb sint_plus1 [of "Y s"] sint_plus1 [of "X s"]
      sint_minus1 [of "Y s" "Size board"] sint_minus1 [of "X s" "Size board"]
    by (auto simp: adjacent_def isInbounds_iff)
  then have "adjacent s n"
    by (simp add: adjacent_def coords)
  moreover have "isInbounds (Size board) n"
    using inb by (simp add: isInbounds_iff coords)
  moreover have "board_shows board n"
    unfolding n using empty by (rule board_shows_resolve)
  ultimately show "isInbounds (Size board) n \<and> adjacent s n \<and> board_shows board n"
    by simp
next
  assume h: "isInbounds (Size board) n \<and> adjacent s n \<and> board_shows board n"
  define c where "c = \<lparr>X = X n, Y = Y n, Color = ''''\<rparr>"
  have n: "n = resolve board c"
    unfolding c_def using h by (simp add: resolve_shown)
  have inb: "isInbounds (Size board) c"
    using h by (simp add: isInbounds_iff c_def)
  have "X n = X s \<and> Y n = Y s + 1 \<or> X n = X s \<and> Y n = Y s - 1
      \<or> X n = X s - 1 \<and> Y n = Y s \<or> X n = X s + 1 \<and> Y n = Y s"
    using h of_sint_plus1 [of "Y n" "Y s"] of_sint_minus1 [of "Y n" "Y s"]
      of_sint_plus1 [of "X n" "X s"] of_sint_minus1 [of "X n" "X s"]
    by (auto simp: adjacent_def sint_eq_iff)
  then have "c \<in> {\<lparr>X = X s, Y = Y s + 1, Color = ''''\<rparr>, \<lparr>X = X s, Y = Y s - 1, Color = ''''\<rparr>,
           \<lparr>X = X s - 1, Y = Y s, Color = ''''\<rparr>, \<lparr>X = X s + 1, Y = Y s, Color = ''''\<rparr>}"
    by (auto simp: c_def)
  with inb n show "n \<in> set (getNearby board s)"
    unfolding set_getNearby by blast
qed

subsection \<open>The Group Detector computes the connected group of the seed\<close>

lemma connected_Color: "connected board seed n \<Longrightarrow> Color n = Color seed"
  by (induction rule: connected.induct) simp_all

lemma connected_cases_seed:
  "connected board seed n \<Longrightarrow>
     n = seed \<or> (isInbounds (Size board) n \<and> board_shows board n)"
  by (induction rule: connected.induct) simp_all

lemma getString_body_cons:
  "getString_body board stone (acc, str) =
     (if last acc \<notin> set str \<and> Color (last acc) = Color stone
      then (butlast acc @ getNearby board (last acc), str @ [last acc])
      else (butlast acc, str))"
  by (simp add: getString_body_def Let_def contains_iff)

declare getString_loop.simps [simp del]

lemma getString_loop_Nil: "getString_loop board stone ([], str) = str"
  by (subst getString_loop.simps) simp

lemma getString_loop_add:
  "0 < length acc \<Longrightarrow> last acc \<notin> set str \<and> Color (last acc) = Color stone \<Longrightarrow>
   getString_loop board stone (acc, str) =
     getString_loop board stone (butlast acc @ getNearby board (last acc), str @ [last acc])"
  by (subst getString_loop.simps) (simp add: getString_body_cons)

lemma getString_loop_skip:
  "0 < length acc \<Longrightarrow> \<not> (last acc \<notin> set str \<and> Color (last acc) = Color stone) \<Longrightarrow>
   getString_loop board stone (acc, str) = getString_loop board stone (butlast acc, str)"
  by (subst getString_loop.simps) (auto simp: getString_body_cons)

text \<open>Soundness: the loop only ever collects stones connected to the seed.\<close>

lemma getString_loop_sound:
  "set str \<subseteq> {n. connected board seed n} \<Longrightarrow>
   {a \<in> set acc. Color a = Color seed} \<subseteq> {n. connected board seed n} \<Longrightarrow>
   set (getString_loop board seed (acc, str)) \<subseteq> {n. connected board seed n}"
proof (induction board seed "(acc, str)" arbitrary: acc str rule: getString_loop.induct)
  case (1 board stone acc str)
  show ?case
  proof (cases "0 < length acc")
    case False
    with "1.prems" show ?thesis by (simp add: getString_loop_Nil)
  next
    case True
    then have last_in: "last acc \<in> set acc" by simp
    have butlast_sub: "set (butlast acc) \<subseteq> set acc"
      by (meson in_set_butlastD subsetI)
    show ?thesis
    proof (cases "last acc \<notin> set str \<and> Color (last acc) = Color stone")
      case add: True
      then have conn: "connected board stone (last acc)"
        using "1.prems"(2) last_in by auto
      have body: "getString_body board stone (acc, str)
          = (butlast acc @ getNearby board (last acc), str @ [last acc])"
        using add by (simp add: getString_body_cons)
      have "set (str @ [last acc]) \<subseteq> {n. connected board stone n}"
        using "1.prems"(1) conn by auto
      moreover have "{a \<in> set (butlast acc @ getNearby board (last acc)). Color a = Color stone}
          \<subseteq> {n. connected board stone n}"
        using "1.prems"(2) butlast_sub conn
        by (auto simp: getNearby_iff intro: connected.step)
      ultimately have "set (getString_loop board stone
          (butlast acc @ getNearby board (last acc), str @ [last acc])) \<subseteq> {n. connected board stone n}"
        using "1.hyps" [OF True body] by blast
      then show ?thesis
        by (simp only: getString_loop_add [OF True add])
    next
      case skip: False
      then have body: "getString_body board stone (acc, str) = (butlast acc, str)"
        by (auto simp: getString_body_cons)
      have "{a \<in> set (butlast acc). Color a = Color stone} \<subseteq> {n. connected board stone n}"
        using "1.prems"(2) butlast_sub by auto
      then have "set (getString_loop board stone (butlast acc, str)) \<subseteq> {n. connected board stone n}"
        using "1.hyps" [OF True body] "1.prems"(1) by blast
      then show ?thesis
        by (simp only: getString_loop_skip [OF True skip])
    qed
  qed
qed

text \<open>
  Completeness. The invariant of the loop: every neighbour of a collected stone that has
  the colour of the seed is either collected or still on the work list.
\<close>

lemma getString_loop_complete:
  "frontier_closed board seed acc str \<Longrightarrow>
   set str \<subseteq> set (getString_loop board seed (acc, str)) \<and>
   {a \<in> set acc. Color a = Color seed} \<subseteq> set (getString_loop board seed (acc, str)) \<and>
   frontier_closed board seed [] (getString_loop board seed (acc, str))"
proof (induction board seed "(acc, str)" arbitrary: acc str rule: getString_loop.induct)
  case (1 board stone acc str)
  show ?case
  proof (cases "0 < length acc")
    case False
    with "1.prems" show ?thesis by (simp add: getString_loop_Nil)
  next
    case True
    then have acc: "set acc = insert (last acc) (set (butlast acc))"
      by (metis append_butlast_last_id length_greater_0_conv list.simps(15) rotate1.simps(2) set_rotate1)
    show ?thesis
    proof (cases "last acc \<notin> set str \<and> Color (last acc) = Color stone")
      case add: True
      have body: "getString_body board stone (acc, str)
          = (butlast acc @ getNearby board (last acc), str @ [last acc])"
        using add by (simp add: getString_body_cons)
      have "frontier_closed board stone (butlast acc @ getNearby board (last acc)) (str @ [last acc])"
        using "1.prems" unfolding frontier_closed_def acc by auto
      from "1.hyps" [OF True body this] show ?thesis
        unfolding getString_loop_add [OF True add] using add acc by auto
    next
      case skip: False
      then have body: "getString_body board stone (acc, str) = (butlast acc, str)"
        by (auto simp: getString_body_cons)
      have "frontier_closed board stone (butlast acc) str"
        using "1.prems" skip unfolding frontier_closed_def acc by auto
      from "1.hyps" [OF True body this] show ?thesis
        unfolding getString_loop_skip [OF True skip] using skip acc by auto
    qed
  qed
qed

lemma set_getString: "set (getString board seed) = {n. connected board seed n}"
proof
  show "set (getString board seed) \<subseteq> {n. connected board seed n}"
    unfolding getString_def
    by (rule getString_loop_sound) (auto intro: connected.seed)
next
  have closed: "frontier_closed board seed [seed] []"
    by (simp add: frontier_closed_def)
  note c = getString_loop_complete [OF closed, folded getString_def]
  have "n \<in> set (getString board seed)" if "connected board seed n" for n
    using that
  proof (induction rule: connected.induct)
    case seed
    then show ?case using c by auto
  next
    case (step s n)
    then have "n \<in> set (getNearby board s)"
      by (simp add: getNearby_iff)
    with step c show ?case
      unfolding frontier_closed_def by auto
  qed
  then show "{n. connected board seed n} \<subseteq> set (getString board seed)"
    by blast
qed

text \<open>No stone is collected twice, and every collected stone has the colour of the seed.\<close>

lemma getString_loop_distinct:
  "distinct str \<Longrightarrow> distinct (getString_loop board seed (acc, str))"
proof (induction board seed "(acc, str)" arbitrary: acc str rule: getString_loop.induct)
  case (1 board stone acc str)
  show ?case
  proof (cases "0 < length acc")
    case False
    with "1.prems" show ?thesis by (simp add: getString_loop_Nil)
  next
    case True
    show ?thesis
    proof (cases "last acc \<notin> set str \<and> Color (last acc) = Color stone")
      case add: True
      have body: "getString_body board stone (acc, str)
          = (butlast acc @ getNearby board (last acc), str @ [last acc])"
        using add by (simp add: getString_body_cons)
      have "distinct (str @ [last acc])"
        using "1.prems" add by simp
      from "1.hyps" [OF True body this] show ?thesis
        by (simp only: getString_loop_add [OF True add])
    next
      case skip: False
      then have body: "getString_body board stone (acc, str) = (butlast acc, str)"
        by (auto simp: getString_body_cons)
      from "1.hyps" [OF True body "1.prems"] show ?thesis
        by (simp only: getString_loop_skip [OF True skip])
    qed
  qed
qed

lemma distinct_getString: "distinct (getString board seed)"
  unfolding getString_def by (rule getString_loop_distinct) simp

lemma connected_coords_unique:
  assumes "connected board seed m" and "connected board seed n"
    and "X m = X n" and "Y m = Y n"
  shows "m = n"
proof -
  have "Color m = Color n"
    using assms(1,2) by (simp add: connected_Color)
  with assms(3,4) show ?thesis by simp
qed

subsection \<open>C4: the string of a seed\<close>



subsection \<open>C8: the visited test by coordinates gives the same string\<close>

lemma getString_body_spec_eq:
  assumes "\<forall>m\<in>set str. Color m = Color stone"
  shows "getString_body_spec board stone (acc, str) = getString_body board stone (acc, str)"
proof (cases "Color (last acc) = Color stone")
  case True
  have "contains_coordinate str (last acc) \<longleftrightarrow> contains str (last acc)"
  proof
    assume "contains_coordinate str (last acc)"
    then obtain m where m: "m \<in> set str" "X m = X (last acc)" "Y m = Y (last acc)"
      by (auto simp: contains_coordinate_iff)
    then have "Color m = Color (last acc)"
      using assms True by simp
    with m have "m = last acc" by simp
    with m show "contains str (last acc)"
      by (simp add: contains_iff)
  next
    assume "contains str (last acc)"
    then show "contains_coordinate str (last acc)"
      by (auto simp: contains_iff contains_coordinate_iff)
  qed
  then show ?thesis
    by (simp add: getString_body_spec_def getString_body_def)
next
  case False
  then show ?thesis
    by (simp add: getString_body_spec_def getString_body_def Let_def)
qed

lemma getString_body_Color:
  assumes "\<forall>m\<in>set str. Color m = Color stone"
  shows "\<forall>m\<in>set (snd (getString_body board stone (acc, str))). Color m = Color stone"
  using assms by (auto simp: getString_body_cons)

lemma getString_loop_spec_eq:
  "\<forall>m\<in>set str. Color m = Color stone \<Longrightarrow>
   getString_loop_spec board stone (acc, str) = getString_loop board stone (acc, str)"
proof (induction board stone "(acc, str)" arbitrary: acc str rule: getString_loop.induct)
  case (1 board stone acc str)
  show ?case
  proof (cases "0 < length acc")
    case False
    then show ?thesis
      by (simp add: getString_loop_Nil)
  next
    case True
    obtain acc' str' where body: "getString_body board stone (acc, str) = (acc', str')"
      by (cases "getString_body board stone (acc, str)")
    have "\<forall>m\<in>set str'. Color m = Color stone"
      using getString_body_Color [OF "1.prems", of board acc] body by simp
    then have "getString_loop_spec board stone (acc', str') = getString_loop board stone (acc', str')"
      using "1.hyps" [OF True body] by simp
    moreover have "getString_loop_spec board stone (acc, str)
        = getString_loop_spec board stone (acc', str')"
      using True body getString_body_spec_eq [OF "1.prems", of board acc] by simp
    moreover have "getString_loop board stone (acc, str) = getString_loop board stone (acc', str')"
      using True body by (subst getString_loop.simps) simp
    ultimately show ?thesis by simp
  qed
qed

text \<open>
  C8. The source tests membership in the visited list by \<open>reflect.DeepEqual\<close>, which
  compares coordinates and colour. The stones collected all have the colour of the
  seed, and a popped stone is collected only when it has that colour too; for such a
  stone, sharing the coordinates of a collected stone means being equal to it. So the
  traversal with the test by coordinates alone returns the same string as the source's,
  for every board and every seed.
\<close>

theorem getString_spec_eq: "getString_spec board seed = getString board seed"
  unfolding getString_spec_def getString_def
  by (rule getString_loop_spec_eq) simp

subsection \<open>C9: the work-list loop terminates\<close>

lemma getString_while:
  "while_option (\<lambda>(acc, str). 0 < length acc) (getString_body board seed) (acc, str)
     = Some ([], getString_loop board seed (acc, str))"
proof (induction board seed "(acc, str)" arbitrary: acc str rule: getString_loop.induct)
  case (1 board stone acc str)
  show ?case
  proof (cases "0 < length acc")
    case False
    then show ?thesis
      by (subst while_option_unfold) (simp add: getString_loop_Nil)
  next
    case True
    obtain acc' str' where body: "getString_body board stone (acc, str) = (acc', str')"
      by (cases "getString_body board stone (acc, str)")
    have "getString_loop board stone (acc, str) = getString_loop board stone (acc', str')"
      using True body by (subst getString_loop.simps) simp
    then show ?thesis
      using "1.hyps" [OF True body] True body
      by (subst while_option_unfold) simp
  qed
qed

lemma length_getNearby: "length (getNearby board s) \<le> 4"
proof -
  define cs where "cs = [\<lparr>X = X s, Y = Y s + 1, Color = ''''\<rparr>, \<lparr>X = X s, Y = Y s - 1, Color = ''''\<rparr>,
    \<lparr>X = X s - 1, Y = Y s, Color = ''''\<rparr>, \<lparr>X = X s + 1, Y = Y s, Color = ''''\<rparr>]"
  have "getNearby board s = map (resolve board) (filter (isInbounds (Size board)) cs)"
    by (simp add: getNearby_def getNearby_loop_eq Let_def cs_def del: filter.simps)
  then have "length (getNearby board s) \<le> length cs"
    by simp
  then show ?thesis
    by (simp add: cs_def)
qed

lemma getString_rounds:
  "\<exists>k. k + 4 * length str \<le> length acc + 4 * length (getString_loop board seed (acc, str)) \<and>
       (getString_body board seed ^^ k) (acc, str) = ([], getString_loop board seed (acc, str))"
proof (induction board seed "(acc, str)" arbitrary: acc str rule: getString_loop.induct)
  case (1 board stone acc str)
  show ?case
  proof (cases "0 < length acc")
    case False
    then have "(getString_body board stone ^^ 0) (acc, str)
        = ([], getString_loop board stone (acc, str))"
      by (simp add: getString_loop_Nil)
    moreover have "0 + 4 * length str \<le> length acc + 4 * length (getString_loop board stone (acc, str))"
      using False by (simp add: getString_loop_Nil)
    ultimately show ?thesis by blast
  next
    case True
    obtain acc' str' where body: "getString_body board stone (acc, str) = (acc', str')"
      by (cases "getString_body board stone (acc, str)")
    have same: "getString_loop board stone (acc, str) = getString_loop board stone (acc', str')"
      using True body by (subst getString_loop.simps) simp
    from "1.hyps" [OF True body] obtain k
      where k: "k + 4 * length str' \<le> length acc' + 4 * length (getString_loop board stone (acc', str'))"
        and run: "(getString_body board stone ^^ k) (acc', str')
          = ([], getString_loop board stone (acc', str'))"
      by blast
    have len: "length acc = Suc (length (butlast acc))"
      using True by simp
    have cost: "length acc' + 4 * length str + 1 \<le> length acc + 4 * length str'"
      using body len length_getNearby [of board "last acc"]
      by (auto simp: getString_body_cons split: if_splits)
    have "(getString_body board stone ^^ Suc k) (acc, str)
        = ([], getString_loop board stone (acc, str))"
      using run body same by (simp add: funpow_swap1)
    moreover have "Suc k + 4 * length str
        \<le> length acc + 4 * length (getString_loop board stone (acc, str))"
      using k cost same by simp
    ultimately show ?thesis by blast
  qed
qed

text \<open>
  C9. For every board and every seed the loop of \<open>getString\<close>, run from the work list
  that holds the seed alone and from the empty string, reaches the empty work list, and
  what it has collected then is \<open>getString board seed\<close>. It gets there within
  \<open>1 + 4 * length (getString board seed)\<close> rounds: a stone is collected at most once,
  and the at most four neighbours of a stone are pushed only when it is collected.
\<close>

theorem getString_terminates:
  "while_option (\<lambda>(acc, str). 0 < length acc) (getString_body board seed) ([seed], [])
     = Some ([], getString board seed) \<and>
   (\<exists>k\<le>1 + 4 * length (getString board seed).
      (getString_body board seed ^^ k) ([seed], []) = ([], getString board seed))"
proof
  show "while_option (\<lambda>(acc, str). 0 < length acc) (getString_body board seed) ([seed], [])
     = Some ([], getString board seed)"
    unfolding getString_def by (rule getString_while)
  from getString_rounds [of "[]" "[seed]" board seed]
  show "\<exists>k\<le>1 + 4 * length (getString board seed).
      (getString_body board seed ^^ k) ([seed], []) = ([], getString board seed)"
    unfolding getString_def by auto
qed

subsection \<open>C6: the Neighbor Resolver\<close>

lemma distinct_getNearby: "distinct (map (\<lambda>n. (X n, Y n)) (getNearby board s))"
proof -
  define cs where "cs = [\<lparr>X = X s, Y = Y s + 1, Color = ''''\<rparr>, \<lparr>X = X s, Y = Y s - 1, Color = ''''\<rparr>,
    \<lparr>X = X s - 1, Y = Y s, Color = ''''\<rparr>, \<lparr>X = X s + 1, Y = Y s, Color = ''''\<rparr>]"
  have *: "getNearby board s = map (resolve board) (filter (isInbounds (Size board)) cs)"
    by (simp add: getNearby_def getNearby_loop_eq Let_def cs_def del: filter.simps)
  have "map (\<lambda>n. (X n, Y n)) (getNearby board s)
      = map (\<lambda>n. (X n, Y n)) (filter (isInbounds (Size board)) cs)"
    unfolding * by (simp add: resolve_coords del: filter.simps)
  moreover have "distinct (map (\<lambda>n. (X n, Y n)) cs)"
    by (simp add: cs_def)
  ultimately show ?thesis
    by (simp add: distinct_map_filter del: filter.simps)
qed

text \<open>
  C6. For every board and stone, \<open>getNearby\<close> returns at most four stones, at pairwise
  different coordinates. Each of them is adjacent to the stone given, lies within the
  bounds (both coordinates at least 0 and below the size of the board) and is what
  \<open>find\<close> returns for its coordinates on the board, or the empty stone when \<open>find\<close>
  returns nothing. Conversely every point adjacent to the stone and within the bounds
  is among them; the points out of bounds are left out, and there is no error value.
\<close>

theorem getNearby_resolved_neighbours:
  "length (getNearby board s) \<le> 4 \<and>
   distinct (map (\<lambda>n. (X n, Y n)) (getNearby board s)) \<and>
   (\<forall>n\<in>set (getNearby board s).
      adjacent s n \<and>
      0 \<le> sint (X n) \<and> sint (X n) < sint (Size board) \<and>
      0 \<le> sint (Y n) \<and> sint (Y n) < sint (Size board) \<and>
      (case find_stone (Stones board) n of Some e \<Rightarrow> n = e | None \<Rightarrow> Color n = '''')) \<and>
   (\<forall>p. adjacent s p \<and>
      0 \<le> sint (X p) \<and> sint (X p) < sint (Size board) \<and>
      0 \<le> sint (Y p) \<and> sint (Y p) < sint (Size board) \<longrightarrow>
      (\<exists>n\<in>set (getNearby board s). X n = X p \<and> Y n = Y p))"
proof (intro conjI)
  show "length (getNearby board s) \<le> 4"
    by (rule length_getNearby)
  show "distinct (map (\<lambda>n. (X n, Y n)) (getNearby board s))"
    by (rule distinct_getNearby)
  show "\<forall>n\<in>set (getNearby board s).
      adjacent s n \<and>
      0 \<le> sint (X n) \<and> sint (X n) < sint (Size board) \<and>
      0 \<le> sint (Y n) \<and> sint (Y n) < sint (Size board) \<and>
      (case find_stone (Stones board) n of Some e \<Rightarrow> n = e | None \<Rightarrow> Color n = '''')"
    by (simp add: getNearby_iff isInbounds_iff board_shows_def)
  show "\<forall>p. adjacent s p \<and>
      0 \<le> sint (X p) \<and> sint (X p) < sint (Size board) \<and>
      0 \<le> sint (Y p) \<and> sint (Y p) < sint (Size board) \<longrightarrow>
      (\<exists>n\<in>set (getNearby board s). X n = X p \<and> Y n = Y p)"
  proof (intro allI impI)
    fix p
    assume p: "adjacent s p \<and>
      0 \<le> sint (X p) \<and> sint (X p) < sint (Size board) \<and>
      0 \<le> sint (Y p) \<and> sint (Y p) < sint (Size board)"
    define n where "n = resolve board \<lparr>X = X p, Y = Y p, Color = ''''\<rparr>"
    have coords: "X n = X p" "Y n = Y p"
      using resolve_coords [of board "\<lparr>X = X p, Y = Y p, Color = ''''\<rparr>"] by (simp_all add: n_def)
    have "board_shows board n"
      unfolding n_def by (rule board_shows_resolve) simp
    moreover have "adjacent s n" "isInbounds (Size board) n"
      using p by (simp_all add: adjacent_def isInbounds_iff coords)
    ultimately have "n \<in> set (getNearby board s)"
      by (simp add: getNearby_iff)
    with coords show "\<exists>n\<in>set (getNearby board s). X n = X p \<and> Y n = Y p"
      by blast
  qed
qed

theorem getNearby_resolved_neighbours_witness:
  "getNearby bent_board (Black 1 1) = [Black 1 2, Empty 1 0, Empty 0 1, White 2 1] \<and>
   adjacent (Black 1 1) (White 2 1) \<and>
   find_stone (Stones bent_board) (White 2 1) = Some (White 2 1) \<and>
   find_stone (Stones bent_board) (Empty 1 0) = None \<and>
   getNearby bent_board (Black 4 4) = [Empty 4 3, Empty 3 4] \<and>
   adjacent (Black 4 4) (Empty 4 3) \<and> sint (Y (Empty 4 3)) < sint (Size bent_board)"
proof -
  have inner: "getNearby bent_board (Black 1 1) = [Black 1 2, Empty 1 0, Empty 0 1, White 2 1]"
    by code_simp
  have corner: "getNearby bent_board (Black 4 4) = [Empty 4 3, Empty 3 4]"
    by code_simp
  have found: "find_stone (Stones bent_board) (White 2 1) = Some (White 2 1)"
    "find_stone (Stones bent_board) (Empty 1 0) = None"
    by code_simp+
  have "White 2 1 \<in> set (getNearby bent_board (Black 1 1))"
    by (simp add: inner)
  with getNearby_resolved_neighbours [of bent_board "Black 1 1"]
  have "adjacent (Black 1 1) (White 2 1)"
    by blast
  moreover have "Empty 4 3 \<in> set (getNearby bent_board (Black 4 4))"
    by (simp add: corner)
  with getNearby_resolved_neighbours [of bent_board "Black 4 4"]
  have "adjacent (Black 4 4) (Empty 4 3) \<and> sint (Y (Empty 4 3)) < sint (Size bent_board)"
    by blast
  ultimately show ?thesis
    using inner corner found by simp
qed

subsection \<open>C5: the Liberty Counter\<close>

lemma findLiberties_nearby_set:
  "set (findLiberties_nearby nearby liberties) = set liberties \<union> {n \<in> set nearby. Color n = ''''}"
  by (induction nearby arbitrary: liberties) (auto simp: contains_iff)

lemma findLiberties_nearby_distinct:
  "distinct liberties \<Longrightarrow> distinct (findLiberties_nearby nearby liberties)"
  by (induction nearby arbitrary: liberties) (auto simp: contains_iff)

lemma findLiberties_loop_set:
  "set (findLiberties_loop board str liberties)
     = set liberties \<union> {n. Color n = '''' \<and> (\<exists>s\<in>set str. n \<in> set (getNearby board s))}"
  by (induction str arbitrary: liberties) (auto simp: findLiberties_nearby_set)

lemma findLiberties_loop_distinct:
  "distinct liberties \<Longrightarrow> distinct (findLiberties_loop board str liberties)"
  by (induction str arbitrary: liberties) (auto simp: findLiberties_nearby_distinct)

lemma set_findLiberties: "set (fst (findLiberties board str)) = {n. liberty board str n}"
  by (auto simp: findLiberties_def Let_def findLiberties_loop_set liberty_def getNearby_iff)

lemma distinct_findLiberties: "distinct (fst (findLiberties board str))"
  by (simp add: findLiberties_def Let_def findLiberties_loop_distinct)

lemma snd_findLiberties: "snd (findLiberties board str) = card {n. liberty board str n}"
proof -
  have "snd (findLiberties board str) = length (fst (findLiberties board str))"
    by (simp add: findLiberties_def Let_def)
  also have "\<dots> = card (set (fst (findLiberties board str)))"
    using distinct_findLiberties [of board str] by (simp add: distinct_card)
  finally show ?thesis
    by (simp add: set_findLiberties)
qed

lemma finite_liberties: "finite {n. liberty board str n}"
  using finite_set [of "fst (findLiberties board str)"] by (simp only: set_findLiberties)

lemma Run_collect_eq:
  "Run_collect board strings toRemove
     = toRemove @ filter (\<lambda>g. snd (findLiberties board g) = 0) strings"
  by (induction strings arbitrary: toRemove) (auto simp: Let_def)

text \<open>
  C5. For every board and string, the list \<open>findLiberties\<close> returns holds exactly the
  liberties of the string, no coordinates twice, and the count it returns is their
  number. The count is zero exactly when the string has no liberty, and the first loop
  of \<open>Run\<close> keeps exactly the strings whose count is zero.
\<close>

theorem findLiberties_counts_liberties:
  "set (fst (findLiberties board str)) = {n. liberty board str n} \<and>
   distinct (map (\<lambda>n. (X n, Y n)) (fst (findLiberties board str))) \<and>
   snd (findLiberties board str) = card {n. liberty board str n} \<and>
   (snd (findLiberties board str) = 0 \<longleftrightarrow> \<not> (\<exists>n. liberty board str n)) \<and>
   set (Run_collect board strings []) = {g \<in> set strings. snd (findLiberties board g) = 0}"
proof (intro conjI)
  show "set (fst (findLiberties board str)) = {n. liberty board str n}"
    by (rule set_findLiberties)
  have "inj_on (\<lambda>n. (X n, Y n)) (set (fst (findLiberties board str)))"
    unfolding set_findLiberties by (rule inj_onI) (simp add: liberty_def)
  then show "distinct (map (\<lambda>n. (X n, Y n)) (fst (findLiberties board str)))"
    using distinct_findLiberties [of board str] by (simp add: distinct_map)
  show "snd (findLiberties board str) = card {n. liberty board str n}"
    by (rule snd_findLiberties)
  show "snd (findLiberties board str) = 0 \<longleftrightarrow> \<not> (\<exists>n. liberty board str n)"
    using finite_liberties [of board str] by (auto simp: snd_findLiberties)
  show "set (Run_collect board strings []) = {g \<in> set strings. snd (findLiberties board g) = 0}"
    by (simp add: Run_collect_eq)
qed

theorem findLiberties_counts_liberties_witness:
  "findLiberties corner_board [Black 0 1] = ([Empty 0 2, Empty 1 1], 2) \<and>
   {n. liberty corner_board [Black 0 1] n} = {Empty 0 2, Empty 1 1} \<and>
   findLiberties corner_board [White 0 0] = ([], 0) \<and>
   \<not> (\<exists>n. liberty corner_board [White 0 0] n) \<and>
   set (Run_collect corner_board [[Black 0 1], [White 0 0]] []) = {[White 0 0]}"
proof -
  have black: "findLiberties corner_board [Black 0 1] = ([Empty 0 2, Empty 1 1], 2)"
    by code_simp
  have white: "findLiberties corner_board [White 0 0] = ([], 0)"
    by code_simp
  have differ: "[Black 0 1] \<noteq> [White 0 0]"
    by (simp add: Black_def White_def)
  from findLiberties_counts_liberties [of corner_board "[Black 0 1]" "[]"] black
  have "{n. liberty corner_board [Black 0 1] n} = {Empty 0 2, Empty 1 1}"
    by simp
  moreover from findLiberties_counts_liberties [of corner_board "[White 0 0]" "[[Black 0 1], [White 0 0]]"]
    black white differ
  have "\<not> (\<exists>n. liberty corner_board [White 0 0] n)"
    and "set (Run_collect corner_board [[Black 0 1], [White 0 0]] []) = {[White 0 0]}"
    by auto
  ultimately show ?thesis
    using black white by simp
qed

subsection \<open>C7: liberties and a stone more or less on the board\<close>

lemma find_stone_append:
  "find_stone (xs @ ys) n = (case find_stone xs n of Some e \<Rightarrow> Some e | None \<Rightarrow> find_stone ys n)"
  by (induction xs) auto

lemma board_shows_without:
  assumes "Color t \<noteq> ''''" and "Color n = ''''"
    and "board_shows (board\<lparr>Stones := xs @ t # ys\<rparr>) n"
  shows "board_shows (board\<lparr>Stones := xs @ ys\<rparr>) n"
  using assms
  by (auto simp: board_shows_def find_stone_append split: option.splits if_splits)

lemma liberty_without:
  assumes "Color t \<noteq> ''''" and "liberty (board\<lparr>Stones := xs @ t # ys\<rparr>) str n"
  shows "liberty (board\<lparr>Stones := xs @ ys\<rparr>) str n"
  using assms board_shows_without [where t = t and n = n and board = board and xs = xs and ys = ys]
  by (auto simp: liberty_def)

lemma liberties_without:
  assumes "Color t \<noteq> ''''"
  shows "snd (findLiberties (board\<lparr>Stones := xs @ t # ys\<rparr>) str)
       \<le> snd (findLiberties (board\<lparr>Stones := xs @ ys\<rparr>) str)"
proof -
  have "{n. liberty (board\<lparr>Stones := xs @ t # ys\<rparr>) str n}
      \<subseteq> {n. liberty (board\<lparr>Stones := xs @ ys\<rparr>) str n}"
    using liberty_without [OF assms] by blast
  then show ?thesis
    unfolding snd_findLiberties by (intro card_mono finite_liberties)
qed

text \<open>
  C7. Let \<open>t\<close> be an occupied stone (its colour is not empty) and \<open>str\<close> any string.
  If the board lists \<open>t\<close>, the board without that entry gives \<open>str\<close> at least as many
  liberties; if the board is extended by \<open>t\<close>, at any place of its list, the extended
  board gives \<open>str\<close> at most as many liberties. Neither needs \<open>t\<close> to be adjacent to the
  string, nor the point of \<open>t\<close> to be empty before.
\<close>

theorem liberties_monotone:
  assumes "Color t \<noteq> ''''"
  shows "(Stones board = xs @ t # ys \<longrightarrow>
            snd (findLiberties board str)
              \<le> snd (findLiberties (board\<lparr>Stones := xs @ ys\<rparr>) str)) \<and>
         (Stones board = xs @ ys \<longrightarrow>
            snd (findLiberties (board\<lparr>Stones := xs @ t # ys\<rparr>) str)
              \<le> snd (findLiberties board str))"
proof (intro conjI impI)
  assume "Stones board = xs @ t # ys"
  then have "board\<lparr>Stones := xs @ t # ys\<rparr> = board"
    by simp
  with liberties_without [OF assms, where board = board and xs = xs and ys = ys and str = str]
  show "snd (findLiberties board str) \<le> snd (findLiberties (board\<lparr>Stones := xs @ ys\<rparr>) str)"
    by simp
next
  assume "Stones board = xs @ ys"
  then have "board\<lparr>Stones := xs @ ys\<rparr> = board"
    by simp
  with liberties_without [OF assms, where board = board and xs = xs and ys = ys and str = str]
  show "snd (findLiberties (board\<lparr>Stones := xs @ t # ys\<rparr>) str) \<le> snd (findLiberties board str)"
    by simp
qed

theorem liberties_monotone_witness:
  "Color (White 0 0) \<noteq> '''' \<and>
   Stones corner_board = [Black 0 1, Black 1 0] @ White 0 0 # [] \<and>
   snd (findLiberties corner_board [Black 0 1]) = 2 \<and>
   snd (findLiberties (corner_board\<lparr>Stones := [Black 0 1, Black 1 0] @ []\<rparr>) [Black 0 1]) = 3 \<and>
   snd (findLiberties corner_board [Black 0 1])
     \<le> snd (findLiberties (corner_board\<lparr>Stones := [Black 0 1, Black 1 0] @ []\<rparr>) [Black 0 1]) \<and>
   Stones (corner_board\<lparr>Stones := [Black 0 1, Black 1 0]\<rparr>) = [Black 0 1, Black 1 0] @ [] \<and>
   snd (findLiberties (corner_board\<lparr>Stones := [Black 0 1, Black 1 0] @ White 0 0 # []\<rparr>) [Black 0 1])
     \<le> snd (findLiberties (corner_board\<lparr>Stones := [Black 0 1, Black 1 0]\<rparr>) [Black 0 1])"
proof -
  have occupied: "Color (White 0 0) \<noteq> ''''"
    by (simp add: White_def)
  have listed: "Stones corner_board = [Black 0 1, Black 1 0] @ White 0 0 # []"
    by (simp add: corner_board_def)
  have before: "snd (findLiberties corner_board [Black 0 1]) = 2"
    by code_simp
  have after: "snd (findLiberties (corner_board\<lparr>Stones := [Black 0 1, Black 1 0] @ []\<rparr>) [Black 0 1]) = 3"
    by code_simp
  have listed': "Stones (corner_board\<lparr>Stones := [Black 0 1, Black 1 0]\<rparr>) = [Black 0 1, Black 1 0] @ []"
    by simp
  from liberties_monotone [OF occupied, of corner_board "[Black 0 1, Black 1 0]" "[]" "[Black 0 1]"] listed
  have removal: "snd (findLiberties corner_board [Black 0 1])
     \<le> snd (findLiberties (corner_board\<lparr>Stones := [Black 0 1, Black 1 0] @ []\<rparr>) [Black 0 1])"
    by blast
  from liberties_monotone [OF occupied,
      of "corner_board\<lparr>Stones := [Black 0 1, Black 1 0]\<rparr>" "[Black 0 1, Black 1 0]" "[]" "[Black 0 1]"] listed'
  have addition: "snd (findLiberties (corner_board\<lparr>Stones := [Black 0 1, Black 1 0] @ White 0 0 # []\<rparr>) [Black 0 1])
     \<le> snd (findLiberties (corner_board\<lparr>Stones := [Black 0 1, Black 1 0]\<rparr>) [Black 0 1])"
    by simp
  show ?thesis
    using occupied listed before after listed' removal addition by simp
qed

subsection \<open>The strings of the Board Partitioner, and the loops of the Capture Resolver\<close>

lemma set_getStrings_loop:
  "set (getStrings_loop board stones strings)
     = set strings \<union> (\<lambda>s. sort_Slice (getString board s)) ` set stones"
  by (induction stones arbitrary: strings) (auto simp: Let_def containsString_iff)

lemma distinct_getStrings_loop:
  "distinct strings \<Longrightarrow> distinct (getStrings_loop board stones strings)"
  by (induction stones arbitrary: strings) (auto simp: Let_def containsString_iff)

lemma set_getStrings:
  "set (getStrings board) = (\<lambda>s. sort_Slice (getString board s)) ` set (Stones board)"
  by (simp add: getStrings_def set_getStrings_loop)

lemma distinct_getStrings: "distinct (getStrings board)"
  by (simp add: getStrings_def distinct_getStrings_loop)

lemma Run_filter_eq:
  "Run_filter stone toRemove updatedRemove
     = updatedRemove @ filter (\<lambda>g. stone \<notin> set g) toRemove"
  by (induction toRemove arbitrary: updatedRemove) (auto simp: contains_iff)

lemma Run_eq:
  "Run board stone =
     (let toRemove = filter (\<lambda>g. snd (findLiberties board g) = 0) (getStrings board)
      in if length toRemove = 1 \<and> stone \<in> set (toRemove ! 0)
         then ([], Some selfCaptureError)
         else if length toRemove > 1
         then (filter (\<lambda>g. stone \<notin> set g) toRemove, None)
         else (toRemove, None))"
  by (simp add: Run_def Let_def Run_collect_eq Run_filter_eq contains_iff)

lemma distinct_singleton:
  "distinct xs \<Longrightarrow> (length xs = 1 \<and> P (xs ! 0)) \<longleftrightarrow> (\<exists>g. set xs = {g} \<and> P g)"
proof (cases xs)
  case Nil
  then show ?thesis by simp
next
  case (Cons x ys)
  assume "distinct xs"
  with Cons show ?thesis
    by (cases ys) auto
qed

lemma length_zero_liberty_strings:
  "length (filter (\<lambda>g. snd (findLiberties board g) = 0) (getStrings board)) = card (captured board)"
  unfolding captured_def
  by (rule distinct_card [symmetric]) (simp add: distinct_getStrings)

subsection \<open>C1: the self-capture error\<close>

text \<open>
  C1. For every board and stone played, \<open>Run\<close> returns the self-capture error exactly
  when the strings of the board without a liberty are one single string and that string
  holds the stone played; the list returned with the error is empty.
\<close>

theorem Run_self_capture:
  "(snd (Run board stone) = Some selfCaptureError
      \<longleftrightarrow> (\<exists>g. captured board = {g} \<and> stone \<in> set g)) \<and>
   (Run board stone = ([], Some selfCaptureError)
      \<longleftrightarrow> (\<exists>g. captured board = {g} \<and> stone \<in> set g))"
proof -
  define toRemove where
    "toRemove = filter (\<lambda>g. snd (findLiberties board g) = 0) (getStrings board)"
  have "distinct toRemove"
    by (simp add: toRemove_def distinct_getStrings)
  then have "(length toRemove = 1 \<and> stone \<in> set (toRemove ! 0))
      \<longleftrightarrow> (\<exists>g. captured board = {g} \<and> stone \<in> set g)"
    unfolding captured_def toRemove_def [symmetric]
    by (rule distinct_singleton)
  then show ?thesis
    by (auto simp: Run_eq Let_def toRemove_def)
qed

theorem Run_self_capture_witness:
  "Run corner_board (White 0 0) = ([], Some selfCaptureError) \<and>
   (\<exists>g. captured corner_board = {g} \<and> White 0 0 \<in> set g) \<and>
   Run corner_board (Black 1 0) = ([[White 0 0]], None) \<and>
   \<not> (\<exists>g. captured corner_board = {g} \<and> Black 1 0 \<in> set g)"
proof -
  have suicide: "Run corner_board (White 0 0) = ([], Some selfCaptureError)"
    by code_simp
  have capture: "Run corner_board (Black 1 0) = ([[White 0 0]], None)"
    by code_simp
  from Run_self_capture [of corner_board "White 0 0"] suicide
  have "\<exists>g. captured corner_board = {g} \<and> White 0 0 \<in> set g"
    by simp
  moreover from Run_self_capture [of corner_board "Black 1 0"] capture
  have "\<not> (\<exists>g. captured corner_board = {g} \<and> Black 1 0 \<in> set g)"
    by simp
  ultimately show ?thesis
    using suicide capture by simp
qed

subsection \<open>C2: several strings without a liberty\<close>

text \<open>
  C2. When more than one string of the board has no liberty, \<open>Run\<close> returns no error
  and returns the strings without a liberty that do not hold the stone played, each
  once and in the order of the Board Partitioner; a string that holds the stone played
  is never among them.
\<close>

theorem Run_opponent_capture:
  assumes "1 < card (captured board)"
  shows "Run board stone =
           (filter (\<lambda>g. snd (findLiberties board g) = 0 \<and> stone \<notin> set g) (getStrings board), None) \<and>
         set (fst (Run board stone)) = {g \<in> captured board. stone \<notin> set g} \<and>
         distinct (fst (Run board stone))"
proof -
  have long: "1 < length (filter (\<lambda>g. snd (findLiberties board g) = 0) (getStrings board))"
    using assms by (simp add: length_zero_liberty_strings)
  then have run: "Run board stone =
      (filter (\<lambda>g. snd (findLiberties board g) = 0 \<and> stone \<notin> set g) (getStrings board), None)"
    by (simp add: Run_eq Let_def conj_commute)
  show ?thesis
    unfolding run using distinct_getStrings [of board]
    by (auto simp: captured_def)
qed

theorem Run_opponent_capture_witness:
  "captured capture_board = {[White 0 1], [White 1 0], [Black 0 0]} \<and>
   1 < card (captured capture_board) \<and>
   Run capture_board (Black 0 0) = ([[White 0 1], [White 1 0]], None)"
proof -
  have none: "captured capture_board = {[White 0 1], [White 1 0], [Black 0 0]}"
    by code_simp
  have many: "1 < card (captured capture_board)"
    by code_simp
  have "filter (\<lambda>g. snd (findLiberties capture_board g) = 0 \<and> Black 0 0 \<notin> set g)
      (getStrings capture_board) = [[White 0 1], [White 1 0]]"
    by code_simp
  with Run_opponent_capture [OF many, of "Black 0 0"]
  have "Run capture_board (Black 0 0) = ([[White 0 1], [White 1 0]], None)"
    by simp
  with none many show ?thesis
    by simp
qed

subsection \<open>C10: without an error, no string returned holds the stone played\<close>

text \<open>
  C10. Whenever \<open>Run\<close> returns without an error, no string of the list it returns holds
  the stone played. The list is then empty when no string is without a liberty, the one
  string without a liberty when there is exactly one, and the filtered list when there
  are more.
\<close>

theorem Run_spares_played_stone:
  assumes "snd (Run board stone) = None"
  shows "(\<forall>g\<in>set (fst (Run board stone)). stone \<notin> set g) \<and>
         (card (captured board) = 0 \<longrightarrow> fst (Run board stone) = []) \<and>
         (card (captured board) = 1 \<longrightarrow> set (fst (Run board stone)) = captured board) \<and>
         (1 < card (captured board) \<longrightarrow>
            set (fst (Run board stone)) = {g \<in> captured board. stone \<notin> set g})"
proof -
  define toRemove where
    "toRemove = filter (\<lambda>g. snd (findLiberties board g) = 0) (getStrings board)"
  have len: "length toRemove = card (captured board)"
    by (simp add: toRemove_def length_zero_liberty_strings)
  have cap: "captured board = set toRemove"
    by (simp add: toRemove_def captured_def)
  have run: "Run board stone =
     (if length toRemove = 1 \<and> stone \<in> set (toRemove ! 0)
         then ([], Some selfCaptureError)
         else if length toRemove > 1
         then (filter (\<lambda>g. stone \<notin> set g) toRemove, None)
         else (toRemove, None))"
    by (simp add: Run_eq Let_def toRemove_def)
  show ?thesis
  proof (cases toRemove)
    case Nil
    with run len [symmetric] show ?thesis by simp
  next
    case (Cons g gs)
    show ?thesis
    proof (cases gs)
      case Nil
      with Cons run len [symmetric] cap assms show ?thesis
        by (auto split: if_splits)
    next
      case (Cons h hs)
      with \<open>toRemove = g # gs\<close> run len [symmetric] cap show ?thesis
        by auto
    qed
  qed
qed

theorem Run_spares_played_stone_witness:
  "Run atari_board (Black 3 4) = ([[White 3 3]], None) \<and>
   Black 3 4 \<notin> set [White 3 3] \<and>
   card (captured atari_board) = 1 \<and> captured atari_board = {[White 3 3]}"
proof -
  have run: "Run atari_board (Black 3 4) = ([[White 3 3]], None)"
    by code_simp
  have one: "card (captured atari_board) = 1"
    by code_simp
  from run have ok: "snd (Run atari_board (Black 3 4)) = None"
    by simp
  from Run_spares_played_stone [OF ok] run one
  have "Black 3 4 \<notin> set [White 3 3]" and "captured atari_board = {[White 3 3]}"
    by auto
  with run one show ?thesis
    by simp
qed

subsection \<open>C3: the strings of a board partition its stones\<close>

lemma less_stone_key: "less_stone a b \<longleftrightarrow> sort_key_stone a < sort_key_stone b"
  by (auto simp: less_stone_def sort_key_stone_def word_sless_alt)

lemma set_insert_stone: "set (insert_stone s ts) = insert s (set ts)"
  by (induction ts) auto

lemma set_sort_Slice: "set (sort_Slice xs) = set xs"
  by (induction xs) (auto simp: set_insert_stone)

lemma distinct_insert_stone: "distinct (insert_stone s ts) \<longleftrightarrow> s \<notin> set ts \<and> distinct ts"
  by (induction ts) (auto simp: set_insert_stone)

lemma distinct_sort_Slice: "distinct (sort_Slice xs) \<longleftrightarrow> distinct xs"
  by (induction xs) (auto simp: distinct_insert_stone set_sort_Slice)

lemma sorted_insert_stone:
  "sorted (map sort_key_stone ts) \<Longrightarrow> sorted (map sort_key_stone (insert_stone s ts))"
  by (induction ts) (auto simp: less_stone_key set_insert_stone)

lemma sorted_sort_Slice: "sorted (map sort_key_stone (sort_Slice xs))"
  by (induction xs) (auto simp: sorted_insert_stone)

lemma sort_Slice_unique:
  assumes "set xs = set ys" and "distinct xs" and "distinct ys"
    and "inj_on sort_key_stone (set xs)"
  shows "sort_Slice xs = sort_Slice ys"
proof -
  have "distinct (map sort_key_stone (sort_Slice xs))" "distinct (map sort_key_stone (sort_Slice ys))"
    using assms by (simp_all add: distinct_map distinct_sort_Slice set_sort_Slice)
  moreover have "set (map sort_key_stone (sort_Slice xs)) = set (map sort_key_stone (sort_Slice ys))"
    using assms(1) by (simp add: set_sort_Slice)
  ultimately have "map sort_key_stone (sort_Slice xs) = map sort_key_stone (sort_Slice ys)"
    using sorted_sort_Slice [of xs] sorted_sort_Slice [of ys]
    by (intro sorted_distinct_set_unique)
  moreover have "inj_on sort_key_stone (set (sort_Slice xs) \<union> set (sort_Slice ys))"
    using assms(1,4) by (simp add: set_sort_Slice)
  ultimately show ?thesis
    by (rule map_inj_on)
qed

text \<open>
  Whatever algorithm sorts a slice of distinct stones with pairwise different keys, the
  result is the one of the insertion sort: the model of \<open>sort.Slice\<close> loses nothing.
\<close>

lemma sort_Slice_any_sort:
  assumes "set ys = set xs" and "distinct ys" and "distinct xs"
    and "sorted (map sort_key_stone ys)" and "inj_on sort_key_stone (set xs)"
  shows "ys = sort_Slice xs"
proof -
  have "distinct (map sort_key_stone ys)" "distinct (map sort_key_stone (sort_Slice xs))"
    using assms by (simp_all add: distinct_map distinct_sort_Slice set_sort_Slice)
  moreover have "set (map sort_key_stone ys) = set (map sort_key_stone (sort_Slice xs))"
    using assms(1) by (simp add: set_sort_Slice)
  ultimately have "map sort_key_stone ys = map sort_key_stone (sort_Slice xs)"
    using assms(4) sorted_sort_Slice [of xs]
    by (intro sorted_distinct_set_unique)
  moreover have "inj_on sort_key_stone (set ys \<union> set (sort_Slice xs))"
    using assms(1,5) by (simp add: set_sort_Slice)
  ultimately show ?thesis
    by (rule map_inj_on)
qed

lemma sort_key_stone_eq:
  "sort_key_stone a = sort_key_stone b \<longleftrightarrow> X a = X b \<and> Y a = Y b"
  by (auto simp: sort_key_stone_def sint_eq_iff)

text \<open>On a board with pairwise distinct coordinates \<open>find\<close> returns the stone itself.\<close>

lemma find_stone_listed:
  "distinct (map (\<lambda>s. (X s, Y s)) stones) \<Longrightarrow> s \<in> set stones \<Longrightarrow> find_stone stones s = Some s"
  by (induction stones) (auto simp: image_iff)

lemma listed_coords_unique:
  "distinct (map (\<lambda>s. (X s, Y s)) stones) \<Longrightarrow> a \<in> set stones \<Longrightarrow> b \<in> set stones \<Longrightarrow>
   X a = X b \<Longrightarrow> Y a = Y b \<Longrightarrow> a = b"
  by (induction stones) (auto simp: image_iff)

lemma connected_listed:
  assumes "connected board seed n" and "Color seed \<noteq> ''''"
  shows "n = seed \<or> n \<in> set (Stones board)"
proof -
  have "Color n \<noteq> ''''"
    using assms by (simp add: connected_Color)
  with connected_cases_seed [OF assms(1)] show ?thesis
    by (auto simp: board_shows_def dest: find_stone_Some split: option.splits)
qed

text \<open>Chains compose, and they can be walked back when they start on the board.\<close>

lemma connected_trans:
  assumes "connected board a b" and "connected board b c"
  shows "connected board a c"
  using assms(2)
proof (induction rule: connected.induct)
  case seed
  show ?case by (rule assms(1))
next
  case (step s n)
  then show ?case
    using connected_Color [OF assms(1)] by (auto intro: connected.step)
qed

lemma adjacent_sym: "adjacent a b \<Longrightarrow> adjacent b a"
  by (auto simp: adjacent_def)

lemma connected_sym:
  assumes "connected board seed n"
    and "isInbounds (Size board) seed" and "board_shows board seed"
  shows "connected board n seed"
  using assms(1)
proof (induction rule: connected.induct)
  case seed
  show ?case by (rule connected.seed)
next
  case (step s n)
  have s: "isInbounds (Size board) s \<and> board_shows board s"
    using connected_cases_seed [OF step.hyps(1)] assms(2,3) by auto
  have "Color s = Color n"
    using step.hyps(1,5) by (simp add: connected_Color)
  then have "connected board n s"
    using s step.hyps(2) by (auto intro: connected.step connected.seed adjacent_sym)
  then show ?case
    using step.IH by (rule connected_trans)
qed

lemma getString_listed:
  assumes "seed \<in> set (Stones board)" and "Color seed \<noteq> ''''"
  shows "set (getString board seed) \<subseteq> set (Stones board)"
proof
  fix n
  assume "n \<in> set (getString board seed)"
  then have "connected board seed n"
    by (simp add: set_getString)
  from connected_listed [OF this assms(2)] assms(1) show "n \<in> set (Stones board)"
    by blast
qed

lemma seed_in_getString: "seed \<in> set (getString board seed)"
  by (simp add: set_getString connected.seed)

lemma Union_getStrings:
  assumes "\<forall>s\<in>set (Stones board). Color s \<noteq> ''''"
  shows "\<Union> (set ` set (getStrings board)) = set (Stones board)"
proof
  show "\<Union> (set ` set (getStrings board)) \<subseteq> set (Stones board)"
  proof
    fix n
    assume "n \<in> \<Union> (set ` set (getStrings board))"
    then obtain seed where seed: "seed \<in> set (Stones board)"
      and n: "n \<in> set (sort_Slice (getString board seed))"
      unfolding set_getStrings by blast
    from n have "n \<in> set (getString board seed)"
      by (simp only: set_sort_Slice)
    with getString_listed [OF seed] assms seed show "n \<in> set (Stones board)"
      by blast
  qed
next
  show "set (Stones board) \<subseteq> \<Union> (set ` set (getStrings board))"
  proof
    fix seed
    assume seed: "seed \<in> set (Stones board)"
    have "seed \<in> set (sort_Slice (getString board seed))"
      by (simp only: set_sort_Slice seed_in_getString)
    with seed show "seed \<in> \<Union> (set ` set (getStrings board))"
      unfolding set_getStrings by blast
  qed
qed

lemma same_string:
  assumes coords: "distinct (map (\<lambda>s. (X s, Y s)) (Stones board))"
    and occupied: "\<forall>s\<in>set (Stones board). Color s \<noteq> ''''"
    and inbounds: "\<forall>s\<in>set (Stones board). isInbounds (Size board) s"
    and a: "a \<in> set (Stones board)" and b: "b \<in> set (Stones board)"
    and s: "s \<in> set (getString board a)" and t: "t \<in> set (getString board b)"
    and st: "X s = X t \<and> Y s = Y t"
  shows "sort_Slice (getString board a) = sort_Slice (getString board b)"
proof -
  have shown: "board_shows board u" if "u \<in> set (Stones board)" for u
    using find_stone_listed [OF coords that] by (simp add: board_shows_def)
  have "s \<in> set (Stones board)"
    using getString_listed [OF a] occupied a s by blast
  moreover have "t \<in> set (Stones board)"
    using getString_listed [OF b] occupied b t by blast
  ultimately have "s = t"
    using st by (intro listed_coords_unique [OF coords]) simp_all
  then have as: "connected board a s" and bs: "connected board b s"
    using s t by (simp_all add: set_getString)
  have a_ok: "isInbounds (Size board) a" "board_shows board a"
    using a inbounds shown by blast+
  have b_ok: "isInbounds (Size board) b" "board_shows board b"
    using b inbounds shown by blast+
  have sa: "connected board s a"
    using as a_ok by (rule connected_sym)
  have sb: "connected board s b"
    using bs b_ok by (rule connected_sym)
  have ab: "connected board a b"
    using as sb by (rule connected_trans)
  have ba: "connected board b a"
    using bs sa by (rule connected_trans)
  have "connected board a n \<longleftrightarrow> connected board b n" for n
    using ab ba connected_trans by blast
  then have "set (getString board a) = set (getString board b)"
    by (simp add: set_getString)
  moreover have "inj_on sort_key_stone (set (getString board a))"
  proof (rule inj_onI)
    fix m n
    assume "m \<in> set (getString board a)" "n \<in> set (getString board a)"
      and "sort_key_stone m = sort_key_stone n"
    then have "connected board a m" "connected board a n" "X m = X n" "Y m = Y n"
      by (simp_all add: set_getString sort_key_stone_eq)
    then show "m = n"
      by (rule connected_coords_unique)
  qed
  ultimately show ?thesis
    by (intro sort_Slice_unique distinct_getString)
qed

text \<open>
  C3, with the bounds made explicit. Take a board whose stones have pairwise distinct coordinates, are all
  occupied (no empty colour) and all lie within the bounds. Then the strings returned by
  \<open>getStrings\<close> hold together exactly the stones of the board, and two returned strings
  that share a coordinate are the same string.
\<close>

theorem getStrings_partition:
  assumes coords: "distinct (map (\<lambda>s. (X s, Y s)) (Stones board))"
    and occupied: "\<forall>s\<in>set (Stones board). Color s \<noteq> ''''"
    and inbounds: "\<forall>s\<in>set (Stones board). isInbounds (Size board) s"
  shows "\<Union> (set ` set (getStrings board)) = set (Stones board) \<and>
         (\<forall>g\<in>set (getStrings board). \<forall>h\<in>set (getStrings board).
            \<forall>s\<in>set g. \<forall>t\<in>set h. X s = X t \<and> Y s = Y t \<longrightarrow> g = h)"
proof
  show "\<Union> (set ` set (getStrings board)) = set (Stones board)"
    using occupied by (rule Union_getStrings)
  show "\<forall>g\<in>set (getStrings board). \<forall>h\<in>set (getStrings board).
            \<forall>s\<in>set g. \<forall>t\<in>set h. X s = X t \<and> Y s = Y t \<longrightarrow> g = h"
  proof (intro ballI impI)
    fix g h s t
    assume g: "g \<in> set (getStrings board)" and h: "h \<in> set (getStrings board)"
      and s: "s \<in> set g" and t: "t \<in> set h" and st: "X s = X t \<and> Y s = Y t"
    from g obtain a where a: "a \<in> set (Stones board)" and ga: "g = sort_Slice (getString board a)"
      unfolding set_getStrings by blast
    from h obtain b where b: "b \<in> set (Stones board)" and hb: "h = sort_Slice (getString board b)"
      unfolding set_getStrings by blast
    have "s \<in> set (getString board a)" "t \<in> set (getString board b)"
      using s t by (simp_all only: ga hb set_sort_Slice)
    with coords occupied inbounds a b show "g = h"
      unfolding ga hb using st by (rule same_string)
  qed
qed

theorem getStrings_partition_witness:
  "distinct (map (\<lambda>s. (X s, Y s)) (Stones bent_board)) \<and>
   getStrings bent_board
     = [[Black 1 1, Black 1 2, Black 2 2], [White 2 1], [Black 4 4]] \<and>
   \<Union> (set ` set (getStrings bent_board)) = set (Stones bent_board)"
proof -
  have coords: "distinct (map (\<lambda>s. (X s, Y s)) (Stones bent_board))"
    by code_simp
  have occupied: "\<forall>s\<in>set (Stones bent_board). Color s \<noteq> ''''"
    by code_simp
  have inbounds: "\<forall>s\<in>set (Stones bent_board). isInbounds (Size bent_board) s"
    by code_simp
  have strings: "getStrings bent_board
     = [[Black 1 1, Black 1 2, Black 2 2], [White 2 1], [Black 4 4]]"
    by code_simp
  from getStrings_partition [OF coords occupied inbounds] coords strings
  show ?thesis
    by blast
qed

text \<open>
  Without the bounds the partition fails, also when the coordinates are pairwise
  distinct and all stones occupied. On a board of size 5 the stone at (5, 0) is out of
  bounds: its string reaches its neighbour at (4, 0), but the string of (4, 0) does not
  reach back, since \<open>getNearby\<close> leaves the point (5, 0) out. The stone at (4, 0) is in two
  different strings.
\<close>

theorem getStrings_partition_counterexample:
  "distinct (map (\<lambda>s. (X s, Y s)) (Stones outside_board)) \<and>
   '''' \<notin> Color ` set (Stones outside_board) \<and>
   getStrings outside_board = [[Black 4 0, Black 5 0], [Black 4 0]] \<and>
   \<not> (\<Union> (set ` set (getStrings outside_board)) = set (Stones outside_board) \<and>
       (\<forall>g\<in>set (getStrings outside_board). \<forall>h\<in>set (getStrings outside_board).
          \<forall>s\<in>set g. \<forall>t\<in>set h. X s = X t \<and> Y s = Y t \<longrightarrow> g = h))"
proof -
  have coords: "distinct (map (\<lambda>s. (X s, Y s)) (Stones outside_board))"
    by code_simp
  have occupied: "'''' \<notin> Color ` set (Stones outside_board)"
    by code_simp
  have strings: "getStrings outside_board = [[Black 4 0, Black 5 0], [Black 4 0]]"
    by code_simp
  have "\<not> (\<forall>g\<in>set (getStrings outside_board). \<forall>h\<in>set (getStrings outside_board).
          \<forall>s\<in>set g. \<forall>t\<in>set h. X s = X t \<and> Y s = Y t \<longrightarrow> g = h)"
    unfolding strings by (simp add: Black_def)
  with coords occupied strings show ?thesis
    by blast
qed

subsection \<open>Further positions, evaluated\<close>

text \<open>
  A single stone in the middle of an empty 5 by 5 board has four liberties; nothing is
  removed and there is no error.
\<close>

lemma Run_single_stone:
  "findLiberties \<lparr>Size = 5, Stones = [Black 2 2]\<rparr> [Black 2 2]
     = ([Empty 2 3, Empty 2 1, Empty 1 2, Empty 3 2], 4) \<and>
   Run \<lparr>Size = 5, Stones = [Black 2 2]\<rparr> (Black 2 2) = ([], None)"
  by code_simp

text \<open>
  At the largest coordinate \<open>Y + 1\<close> wraps around to the smallest one, which is negative
  and so out of bounds; next to the board, at \<open>Y = -1\<close>, the point above is the point
  (0, 0) of the board.
\<close>

lemma getNearby_at_the_edges:
  "getNearby \<lparr>Size = 5, Stones = []\<rparr> \<lparr>X = 0, Y = 9223372036854775807, Color = ''''\<rparr> = [] \<and>
   getNearby \<lparr>Size = 5, Stones = []\<rparr> \<lparr>X = 0, Y = - 1, Color = ''''\<rparr> = [Empty 0 0]"
  by code_simp

end
